theory Spec2Isabelle
  imports Main "HOL-Library.Word" "HOL-Library.Product_Lexorder"
begin

section \<open>Pool metadata upgrade module: \<^verbatim>\<open>src/upgrade.c\<close>\<close>

text \<open>
  The module keeps the table of mpool MDC content versions and the routines that read,
  compare and print a version. Every function of the file is embedded below under its own
  name. Pointers to structs are passed as the struct's value (a valid, non-NULL pointer is
  the caller's obligation in the source); the character buffer written by
  \<^verbatim>\<open>omfu_mdcver_to_str\<close> lives in an explicit byte memory, so that what is written, where, and
  what is left alone can be stated.
\<close>

subsection \<open>Data\<close>

text \<open>
  The fixed-width types of the source. \<^verbatim>\<open>size_t\<close> is taken at 64 bits; the only use made of
  its width is that \<open>0 - 1\<close> wraps around.
\<close>

type_synonym u8 = "8 word"
type_synonym u16 = "16 word"
type_synonym size_t = "64 word"

text \<open>
  Modelled from the spec: the declaration of \<^verbatim>\<open>struct omf_mdcver\<close> is in a header that is
  not part of \<^verbatim>\<open>src/\<close>. The spec describes it as four unsigned 16-bit components (major,
  minor, patch, dev), major the most significant. The source reads it both through the four
  named fields and through the array \<^verbatim>\<open>mdcver[i]\<close>, and initialises it positionally as
  \<^verbatim>\<open>{MDCVER_MAJOR, MDCVER_MINOR, MDCVER_PATCH, MDCVER_DEV}\<close>; \<open>mdcver\<close> below is that array
  view, the four fields in the order major, minor, patch, dev.
\<close>

record omf_mdcver =
  mdcv_major :: u16
  mdcv_minor :: u16
  mdcv_patch :: u16
  mdcv_dev :: u16

definition mdcver :: "omf_mdcver \<Rightarrow> u16 list" where
  "mdcver v = [mdcv_major v, mdcv_minor v, mdcv_patch v, mdcv_dev v]"

text \<open>
  \<^verbatim>\<open>ARRAY_SIZE\<close> of an array is its number of elements.
\<close>

definition ARRAY_SIZE :: "'a list \<Rightarrow> nat" where
  "ARRAY_SIZE xs = length xs"

text \<open>
  The record types of MDC content. Their numeric values are declared outside \<^verbatim>\<open>src/\<close>;
  the table only lists them by name.
\<close>

datatype omf_mdr_type =
    OMF_MDR_OCREATE | OMF_MDR_OUPDATE | OMF_MDR_ODELETE | OMF_MDR_OIDCKPT
  | OMF_MDR_OERASE | OMF_MDR_MCCONFIG | OMF_MDR_MCSPARE | OMF_MDR_VERSION
  | OMF_MDR_MPCONFIG

record mdcver_info =
  mi_mdcver :: omf_mdcver
  mi_types :: "omf_mdr_type list"
  mi_ntypes :: u8
  mi_comment :: string

definition MDCVER_MAJOR :: u16 where "MDCVER_MAJOR = 1"
definition MDCVER_MINOR :: u16 where "MDCVER_MINOR = 0"
definition MDCVER_PATCH :: u16 where "MDCVER_PATCH = 0"
definition MDCVER_DEV :: u16 where "MDCVER_DEV = 0"

definition mdcver_1_0_0_0_types :: "omf_mdr_type list" where
  "mdcver_1_0_0_0_types =
     [OMF_MDR_OCREATE, OMF_MDR_OUPDATE, OMF_MDR_ODELETE, OMF_MDR_OIDCKPT,
      OMF_MDR_OERASE, OMF_MDR_MCCONFIG, OMF_MDR_MCSPARE, OMF_MDR_VERSION,
      OMF_MDR_MPCONFIG]"

definition mdcvtab :: "mdcver_info list" where
  "mdcvtab =
     [\<lparr>mi_mdcver = \<lparr>mdcv_major = MDCVER_MAJOR, mdcv_minor = MDCVER_MINOR,
                    mdcv_patch = MDCVER_PATCH, mdcv_dev = MDCVER_DEV\<rparr>,
       mi_types = mdcver_1_0_0_0_types,
       mi_ntypes = of_nat (length mdcver_1_0_0_0_types),
       mi_comment = ''Initial mpool MDCs content''\<rparr>]"

subsection \<open>Faults\<close>

text \<open>
  None of the functions has an error return of its own. What can go wrong in the C is a read
  outside the object read from, or a conversion directive the formatter cannot serve; the
  model returns these as values (\<open>Inl\<close>), and a normal return as \<open>Inr\<close>.
\<close>

datatype fault = ReadPastEnd | BadFormat

definition NUL :: char where
  "NUL = CHR 0x00"

text \<open>
  A C string is held as the characters before its terminator. Reading index \<open>i\<close> gives the
  character there, the terminator at index \<open>length s\<close>, and is outside the string beyond.
\<close>

definition cstr_at :: "string \<Rightarrow> nat \<Rightarrow> fault + char" where
  "cstr_at s i =
     (if i < length s then Inr (s ! i)
      else if i = length s then Inr NUL
      else Inl ReadPastEnd)"

definition array_at :: "'a list \<Rightarrow> nat \<Rightarrow> fault + 'a" where
  "array_at xs i = (if i < length xs then Inr (xs ! i) else Inl ReadPastEnd)"

subsection \<open>\<^verbatim>\<open>omfu_mdcver_cmp\<close> and \<^verbatim>\<open>omfu_mdcver_cmp2\<close>\<close>

text \<open>
  The loop of \<^verbatim>\<open>omfu_mdcver_cmp\<close>, started at index \<open>i\<close> with \<^verbatim>\<open>res = 0\<close>: it leaves at the
  first index whose elements differ with \<^verbatim>\<open>res\<close> set to 1 or -1, and otherwise runs to
  \<^verbatim>\<open>cnt\<close> and leaves \<^verbatim>\<open>res\<close> at 0. The elements are \<^verbatim>\<open>u16\<close>, compared as unsigned values.
\<close>

function omfu_mdcver_cmp_res :: "omf_mdcver \<Rightarrow> omf_mdcver \<Rightarrow> nat \<Rightarrow> int" where
  "omfu_mdcver_cmp_res a b i =
     (let cnt = ARRAY_SIZE (mdcver a) in
      if i < cnt then
        (if mdcver a ! i \<noteq> mdcver b ! i
         then (if mdcver a ! i > mdcver b ! i then 1 else - 1)
         else omfu_mdcver_cmp_res a b (i + 1))
      else 0)"
  by pat_completeness auto
termination
  by (relation "measure (\<lambda>(a, b, i). ARRAY_SIZE (mdcver a) - i)") auto

declare omfu_mdcver_cmp_res.simps [simp del]

text \<open>
  The test on the operator reads \<^verbatim>\<open>op[1]\<close> first, and \<^verbatim>\<open>op[0]\<close> only when the first disjunct
  is false, in the order C evaluates \<^verbatim>\<open>&&\<close> and \<^verbatim>\<open>||\<close>.
\<close>

definition omfu_mdcver_cmp :: "omf_mdcver \<Rightarrow> string \<Rightarrow> omf_mdcver \<Rightarrow> fault + bool" where
  "omfu_mdcver_cmp a op b =
     (let res = omfu_mdcver_cmp_res a b 0 in
      case cstr_at op 1 of
        Inl e \<Rightarrow> Inl e
      | Inr c1 \<Rightarrow>
          if c1 = CHR ''='' \<and> res = 0 then Inr True
          else
            (case cstr_at op 0 of
               Inl e \<Rightarrow> Inl e
             | Inr c0 \<Rightarrow>
                 if (c0 = CHR ''>'' \<and> res > 0) \<or> (c0 = CHR ''<'' \<and> res < 0)
                 then Inr True
                 else Inr False))"

text \<open>
  \<^verbatim>\<open>omfu_mdcver_cmp2\<close> declares a local \<^verbatim>\<open>struct omf_mdcver b\<close> without initialising it and
  assigns its four fields. The first argument of the model is whatever the stack held for
  \<^verbatim>\<open>b\<close> on entry.
\<close>

definition omfu_mdcver_cmp2 ::
  "omf_mdcver \<Rightarrow> omf_mdcver \<Rightarrow> string \<Rightarrow> u16 \<Rightarrow> u16 \<Rightarrow> u16 \<Rightarrow> u16 \<Rightarrow> fault + bool" where
  "omfu_mdcver_cmp2 b_uninit a op major minor patch dev =
     (let b = b_uninit;
          b = b\<lparr>mdcv_major := major\<rparr>;
          b = b\<lparr>mdcv_minor := minor\<rparr>;
          b = b\<lparr>mdcv_patch := patch\<rparr>;
          b = b\<lparr>mdcv_dev := dev\<rparr>
      in omfu_mdcver_cmp a op b)"

subsection \<open>\<^verbatim>\<open>omfu_mdcver_cur\<close> and \<^verbatim>\<open>omfu_mdcver_comment\<close>\<close>

text \<open>
  \<^verbatim>\<open>omfu_mdcver_cur\<close> returns the address of the \<^verbatim>\<open>mi_mdcver\<close> field of
  \<^verbatim>\<open>mdcvtab[ARRAY_SIZE(mdcvtab) - 1]\<close>; the model returns the version stored there. The index
  is computed in \<^verbatim>\<open>size_t\<close>, where \<open>0 - 1\<close> wraps around.
\<close>

definition omfu_mdcver_cur :: "fault + omf_mdcver" where
  "omfu_mdcver_cur =
     (case array_at mdcvtab (unat ((of_nat (ARRAY_SIZE mdcvtab) :: size_t) - 1)) of
        Inl e \<Rightarrow> Inl e
      | Inr entry \<Rightarrow> Inr (mi_mdcver entry))"

text \<open>
  The loop of \<^verbatim>\<open>omfu_mdcver_comment\<close> over a table \<open>tab\<close>, from index \<open>i\<close> on. \<open>None\<close> is the
  \<^verbatim>\<open>NULL\<close> returned when the loop runs to the end of the table.
\<close>

function omfu_mdcver_comment_from ::
  "mdcver_info list \<Rightarrow> omf_mdcver \<Rightarrow> nat \<Rightarrow> fault + string option" where
  "omfu_mdcver_comment_from tab ver i =
     (if i < ARRAY_SIZE tab then
        (case omfu_mdcver_cmp ver ''=='' (mi_mdcver (tab ! i)) of
           Inl e \<Rightarrow> Inl e
         | Inr r \<Rightarrow>
             if r then Inr (Some (mi_comment (tab ! i)))
             else omfu_mdcver_comment_from tab ver (i + 1))
      else Inr None)"
  by pat_completeness auto
termination
  by (relation "measure (\<lambda>(tab, ver, i). ARRAY_SIZE tab - i)") auto

declare omfu_mdcver_comment_from.simps [simp del]

definition omfu_mdcver_comment :: "omf_mdcver \<Rightarrow> fault + string option" where
  "omfu_mdcver_comment ver = omfu_mdcver_comment_from mdcvtab ver 0"

subsection \<open>\<^verbatim>\<open>omfu_mdcver_to_str\<close>\<close>

text \<open>
  \<^verbatim>\<open>snprintf\<close> is the library's, not this module's. It is modelled by its contract: the text
  is produced from the format and the arguments; when the size is not 0, at most size - 1
  of its characters are stored from the buffer's address on, followed by a terminating NUL;
  when the size is 0 nothing is stored; the return value is the length of the whole text.
  Of the conversions only \<^verbatim>\<open>%u\<close> is modelled, the one the module uses: an
  \<^verbatim>\<open>unsigned int\<close> in decimal, most significant digit first, without sign or padding. Any
  other character of the format is copied.
\<close>

text \<open>
  \<open>digit_char\<close> is the character of a digit below 10, and \<open>utoa\<close> the \<^verbatim>\<open>%u\<close> conversion:
  the last digit is \<open>n mod 10\<close>, preceded by the digits of \<open>n div 10\<close> when there are any.
\<close>

definition digit_char :: "nat \<Rightarrow> char" where
  "digit_char d = ''0123456789'' ! d"

function utoa :: "nat \<Rightarrow> string" where
  "utoa n = (if n < 10 then [digit_char n] else utoa (n div 10) @ [digit_char (n mod 10)])"
  by pat_completeness auto
termination
  by (relation "measure id") auto

declare utoa.simps [simp del]

fun vformat :: "string \<Rightarrow> nat list \<Rightarrow> fault + string" where
  "vformat [] args = Inr []"
| "vformat (c # fmt) args =
     (if c \<noteq> CHR ''%'' then
        (case vformat fmt args of Inl e \<Rightarrow> Inl e | Inr s \<Rightarrow> Inr (c # s))
      else
        (case fmt of
           [] \<Rightarrow> Inl BadFormat
         | d # fmt' \<Rightarrow>
             if d = CHR ''u'' then
               (case args of
                  [] \<Rightarrow> Inl BadFormat
                | a # args' \<Rightarrow>
                    (case vformat fmt' args' of
                       Inl e \<Rightarrow> Inl e
                     | Inr s \<Rightarrow> Inr (utoa a @ s)))
             else Inl BadFormat))"

text \<open>
  Memory is a map from addresses to characters. \<open>store_bytes\<close> writes a sequence of
  characters at consecutive addresses, \<open>load_bytes\<close> reads \<open>n\<close> of them, and \<open>cstring_in\<close>
  reads the C string at an address: the characters before the first NUL, within \<open>n\<close> bytes.
\<close>

type_synonym addr = nat
type_synonym memory = "addr \<Rightarrow> char"

fun store_bytes :: "memory \<Rightarrow> addr \<Rightarrow> char list \<Rightarrow> memory" where
  "store_bytes m p [] = m"
| "store_bytes m p (c # cs) = store_bytes (m(p := c)) (Suc p) cs"

fun load_bytes :: "memory \<Rightarrow> addr \<Rightarrow> nat \<Rightarrow> char list" where
  "load_bytes m p 0 = []"
| "load_bytes m p (Suc n) = m p # load_bytes m (Suc p) n"

fun cstring_in :: "memory \<Rightarrow> addr \<Rightarrow> nat \<Rightarrow> string" where
  "cstring_in m p 0 = []"
| "cstring_in m p (Suc n) = (if m p = NUL then [] else m p # cstring_in m (Suc p) n)"

text \<open>
  A memory that holds the same character at every address, for concrete runs.
\<close>

definition mem_fill :: "char \<Rightarrow> memory" where
  "mem_fill c = (\<lambda>p. c)"

definition snprintf ::
  "memory \<Rightarrow> addr \<Rightarrow> nat \<Rightarrow> string \<Rightarrow> nat list \<Rightarrow> fault + (memory \<times> int)" where
  "snprintf m buf sz fmt args =
     (case vformat fmt args of
        Inl e \<Rightarrow> Inl e
      | Inr s \<Rightarrow>
          Inr (if sz = 0 then m else store_bytes m buf (take (sz - 1) s @ [NUL]),
               int (length s)))"

text \<open>
  \<^verbatim>\<open>omfu_mdcver_to_str\<close> passes the four \<^verbatim>\<open>u16\<close> fields, which arrive at \<^verbatim>\<open>%u\<close> with their
  unsigned values, ignores what \<^verbatim>\<open>snprintf\<close> returns, and returns \<^verbatim>\<open>buf\<close>. The model returns
  the pointer together with the memory after the call.
\<close>

definition omfu_mdcver_to_str ::
  "memory \<Rightarrow> omf_mdcver \<Rightarrow> addr \<Rightarrow> nat \<Rightarrow> fault + (addr \<times> memory)" where
  "omfu_mdcver_to_str m ver buf sz =
     (case snprintf m buf sz ''%u.%u.%u.%u''
             [unat (mdcv_major ver), unat (mdcv_minor ver),
              unat (mdcv_patch ver), unat (mdcv_dev ver)] of
        Inl e \<Rightarrow> Inl e
      | Inr (m', n) \<Rightarrow> Inr (buf, m'))"

text \<open>
  What the caller reads back: the C string at the pointer returned, in the memory returned,
  within the \<open>sz\<close> bytes of its buffer.
\<close>

definition to_str_text :: "memory \<Rightarrow> omf_mdcver \<Rightarrow> addr \<Rightarrow> nat \<Rightarrow> fault + string" where
  "to_str_text m ver buf sz =
     (case omfu_mdcver_to_str m ver buf sz of
        Inl e \<Rightarrow> Inl e
      | Inr (p, m') \<Rightarrow> Inr (cstring_in m' p sz))"

text \<open>
  The ordering the comparison is specified against: the tuple (major, minor, patch, dev)
  under the lexicographic order of products.
\<close>

definition mdcver_key :: "omf_mdcver \<Rightarrow> u16 \<times> u16 \<times> u16 \<times> u16" where
  "mdcver_key v = (mdcv_major v, mdcv_minor v, mdcv_patch v, mdcv_dev v)"

text \<open>
  The spec's \<^verbatim>\<open>compare_literal\<close>, in its words: build a version identifier from the four
  literals and delegate to \<^verbatim>\<open>compare\<close>.
\<close>

definition VersionId :: "u16 \<Rightarrow> u16 \<Rightarrow> u16 \<Rightarrow> u16 \<Rightarrow> omf_mdcver" where
  "VersionId major minor patch dev =
     \<lparr>mdcv_major = major, mdcv_minor = minor, mdcv_patch = patch, mdcv_dev = dev\<rparr>"

definition spec_compare_literal ::
  "omf_mdcver \<Rightarrow> string \<Rightarrow> u16 \<Rightarrow> u16 \<Rightarrow> u16 \<Rightarrow> u16 \<Rightarrow> fault + bool" where
  "spec_compare_literal a op major minor patch dev =
     omfu_mdcver_cmp a op (VersionId major minor patch dev)"

text \<open>
  The spec's canonical text of a version, in its words: the four components in decimal,
  without leading zeros beyond a single \<^verbatim>\<open>0\<close>, joined by periods. \<open>decimal_value\<close> is the
  number a string of decimal digits denotes, \<open>is_decimal\<close> says that a string is a decimal
  numeral without a leading zero other than the single \<^verbatim>\<open>0\<close>, and \<open>spec_to_string v s\<close>
  that \<open>s\<close>, cut at its periods, is four such numerals denoting the components of \<open>v\<close>.
\<close>

definition is_digit :: "char \<Rightarrow> bool" where
  "is_digit c = (c \<in> set ''0123456789'')"

definition digit_value :: "char \<Rightarrow> nat" where
  "digit_value c = of_char c - of_char (CHR ''0'')"

definition decimal_value :: "string \<Rightarrow> nat" where
  "decimal_value s = foldl (\<lambda>acc c. 10 * acc + digit_value c) 0 s"

definition is_decimal :: "string \<Rightarrow> bool" where
  "is_decimal s = (s \<noteq> [] \<and> list_all is_digit s \<and> (hd s \<noteq> CHR ''0'' \<or> s = ''0''))"

definition decimal_of :: "nat \<Rightarrow> string \<Rightarrow> bool" where
  "decimal_of n s = (is_decimal s \<and> decimal_value s = n)"

fun split_at :: "char \<Rightarrow> string \<Rightarrow> string list" where
  "split_at sep [] = [[]]"
| "split_at sep (c # cs) =
     (if c = sep then [] # split_at sep cs
      else (case split_at sep cs of [] \<Rightarrow> [[c]] | x # xs \<Rightarrow> (c # x) # xs))"

definition spec_to_string :: "omf_mdcver \<Rightarrow> string \<Rightarrow> bool" where
  "spec_to_string v s =
     (case split_at (CHR ''.'') s of
        [s1, s2, s3, s4] \<Rightarrow>
          decimal_of (unat (mdcv_major v)) s1 \<and> decimal_of (unat (mdcv_minor v)) s2 \<and>
          decimal_of (unat (mdcv_patch v)) s3 \<and> decimal_of (unat (mdcv_dev v)) s4
      | _ \<Rightarrow> False)"

text \<open>
  The text of a version: its four components as \<^verbatim>\<open>%u\<close> prints them, joined by periods.
\<close>

definition mdcver_text :: "omf_mdcver \<Rightarrow> string" where
  "mdcver_text v =
     utoa (unat (mdcv_major v)) @ ''.'' @ utoa (unat (mdcv_minor v)) @ ''.'' @
     utoa (unat (mdcv_patch v)) @ ''.'' @ utoa (unat (mdcv_dev v))"

subsection \<open>The comparison loop\<close>

lemma mdcver_key_eq_iff: "mdcver_key a = mdcver_key b \<longleftrightarrow> a = b"
  by (cases a, cases b) (simp add: mdcver_key_def)

lemma cmp_res_step:
  "i < 4 \<Longrightarrow>
   omfu_mdcver_cmp_res a b i =
     (if mdcver a ! i \<noteq> mdcver b ! i
      then (if mdcver a ! i > mdcver b ! i then 1 else - 1)
      else omfu_mdcver_cmp_res a b (Suc i))"
  by (subst omfu_mdcver_cmp_res.simps) (simp add: ARRAY_SIZE_def mdcver_def)

lemma cmp_res_stop: "omfu_mdcver_cmp_res a b (Suc (Suc (Suc (Suc 0)))) = 0"
  by (subst omfu_mdcver_cmp_res.simps) (simp add: ARRAY_SIZE_def mdcver_def)

lemma cmp_res_unfold:
  "omfu_mdcver_cmp_res a b 0 =
     (if mdcv_major a \<noteq> mdcv_major b then (if mdcv_major a > mdcv_major b then 1 else - 1)
      else if mdcv_minor a \<noteq> mdcv_minor b then (if mdcv_minor a > mdcv_minor b then 1 else - 1)
      else if mdcv_patch a \<noteq> mdcv_patch b then (if mdcv_patch a > mdcv_patch b then 1 else - 1)
      else if mdcv_dev a \<noteq> mdcv_dev b then (if mdcv_dev a > mdcv_dev b then 1 else - 1)
      else 0)"
proof -
  have n3: "omfu_mdcver_cmp_res a b (Suc (Suc (Suc 0))) =
      (if mdcv_dev a \<noteq> mdcv_dev b then (if mdcv_dev a > mdcv_dev b then 1 else - 1) else 0)"
    by (subst cmp_res_step) (simp_all add: mdcver_def cmp_res_stop)
  have n2: "omfu_mdcver_cmp_res a b (Suc (Suc 0)) =
      (if mdcv_patch a \<noteq> mdcv_patch b then (if mdcv_patch a > mdcv_patch b then 1 else - 1)
       else omfu_mdcver_cmp_res a b (Suc (Suc (Suc 0))))"
    by (subst cmp_res_step) (simp_all add: mdcver_def)
  have n1: "omfu_mdcver_cmp_res a b (Suc 0) =
      (if mdcv_minor a \<noteq> mdcv_minor b then (if mdcv_minor a > mdcv_minor b then 1 else - 1)
       else omfu_mdcver_cmp_res a b (Suc (Suc 0)))"
    by (subst cmp_res_step) (simp_all add: mdcver_def)
  have n0: "omfu_mdcver_cmp_res a b 0 =
      (if mdcv_major a \<noteq> mdcv_major b then (if mdcv_major a > mdcv_major b then 1 else - 1)
       else omfu_mdcver_cmp_res a b (Suc 0))"
    by (subst cmp_res_step) (simp_all add: mdcver_def)
  show ?thesis
    by (simp only: n0 n1 n2 n3)
qed

lemma cmp_res_lex:
  "omfu_mdcver_cmp_res a b 0 =
     (if mdcver_key a = mdcver_key b then 0
      else if mdcver_key a < mdcver_key b then - 1 else 1)"
  unfolding cmp_res_unfold mdcver_key_def
  by (auto simp: not_less)

text \<open>
  The loop started at \<open>i\<close> answers at the first index from \<open>i\<close> on where the two arrays
  differ.
\<close>

lemma cmp_res_first_diff:
  "i \<le> k \<Longrightarrow> k < ARRAY_SIZE (mdcver a) \<Longrightarrow>
   (\<forall>j. i \<le> j \<and> j < k \<longrightarrow> mdcver a ! j = mdcver b ! j) \<Longrightarrow>
   mdcver a ! k \<noteq> mdcver b ! k \<Longrightarrow>
   omfu_mdcver_cmp_res a b i = (if mdcver a ! k > mdcver b ! k then 1 else - 1)"
proof (induction a b i rule: omfu_mdcver_cmp_res.induct)
  case (1 a b i)
  show ?case
  proof (cases "i = k")
    case True
    with "1.prems" show ?thesis
      by (subst omfu_mdcver_cmp_res.simps) simp
  next
    case False
    with "1.prems" have lt: "i < k" and same: "mdcver a ! i = mdcver b ! i"
      by auto
    from lt "1.prems" have inb: "i < ARRAY_SIZE (mdcver a)"
      by simp
    have "omfu_mdcver_cmp_res a b (i + 1) = (if mdcver a ! k > mdcver b ! k then 1 else - 1)"
      using "1.IH" [OF refl inb] same lt "1.prems" by simp
    with inb same show ?thesis
      by (subst omfu_mdcver_cmp_res.simps) simp
  qed
qed

lemma cmp_res_all_same:
  "(\<forall>j. i \<le> j \<and> j < ARRAY_SIZE (mdcver a) \<longrightarrow> mdcver a ! j = mdcver b ! j) \<Longrightarrow>
   omfu_mdcver_cmp_res a b i = 0"
proof (induction a b i rule: omfu_mdcver_cmp_res.induct)
  case (1 a b i)
  show ?case
  proof (cases "i < ARRAY_SIZE (mdcver a)")
    case True
    with "1.prems" have same: "mdcver a ! i = mdcver b ! i"
      by simp
    have "omfu_mdcver_cmp_res a b (i + 1) = 0"
      using "1.IH" [OF refl True] same "1.prems" by simp
    with True same show ?thesis
      by (subst omfu_mdcver_cmp_res.simps) simp
  next
    case False
    then show ?thesis
      by (subst omfu_mdcver_cmp_res.simps) simp
  qed
qed

subsection \<open>The operator test\<close>

lemma cstr_at_0: "cstr_at (c # cs) 0 = Inr c"
  by (simp add: cstr_at_def)

lemma cstr_at_1_single: "cstr_at [c] (Suc 0) = Inr NUL"
  by (simp add: cstr_at_def)

lemma cstr_at_1: "cstr_at (c # d # cs) (Suc 0) = Inr d"
  by (simp add: cstr_at_def)

lemma cstr_at_1_empty: "cstr_at [] (Suc 0) = Inl ReadPastEnd"
  by (simp add: cstr_at_def)

lemma NUL_not_eq: "NUL \<noteq> CHR ''=''"
  by (simp add: NUL_def)

text \<open>
  What the call returns on an operator of one character, and on one of two or more, in terms
  of the lexicographic order of the keys.
\<close>

lemma cmp_single:
  "omfu_mdcver_cmp a [c] b =
     Inr ((c = CHR ''>'' \<and> mdcver_key a > mdcver_key b) \<or>
          (c = CHR ''<'' \<and> mdcver_key a < mdcver_key b))"
  by (auto simp: omfu_mdcver_cmp_def cstr_at_0 cstr_at_1_single NUL_not_eq cmp_res_lex)

lemma cmp_two:
  "omfu_mdcver_cmp a (c # d # cs) b =
     Inr ((d = CHR ''='' \<and> mdcver_key a = mdcver_key b) \<or>
          (c = CHR ''>'' \<and> mdcver_key a > mdcver_key b) \<or>
          (c = CHR ''<'' \<and> mdcver_key a < mdcver_key b))"
  by (auto simp: omfu_mdcver_cmp_def cstr_at_0 cstr_at_1 cmp_res_lex)

lemma cmp_empty: "omfu_mdcver_cmp a [] b = Inl ReadPastEnd"
  by (simp add: omfu_mdcver_cmp_def cstr_at_1_empty)

lemma cmp2_eq_cmp:
  "omfu_mdcver_cmp2 s a op major minor patch dev =
     omfu_mdcver_cmp a op
       \<lparr>mdcv_major = major, mdcv_minor = minor, mdcv_patch = patch, mdcv_dev = dev\<rparr>"
  by (cases s) (simp add: omfu_mdcver_cmp2_def)

subsection \<open>Claims about the comparison\<close>

text \<open>
  Claim C1. For every two version identifiers \<open>a\<close> and \<open>b\<close>, \<^verbatim>\<open>omfu_mdcver_cmp\<close> orders them by
  comparing the four components from major to dev: the first component that differs decides
  (\<^verbatim>\<open>res\<close> is 1 when \<open>a\<close>'s is the greater, -1 when it is the smaller), and \<^verbatim>\<open>res\<close> is 0 when all
  four are equal. The ordering computed is the lexicographic ordering of the tuples
  (major, minor, patch, dev), and each of the five operators answers by it.
\<close>

theorem omfu_mdcver_cmp_lexicographic:
  "(\<forall>k < ARRAY_SIZE (mdcver a).
      (\<forall>j < k. mdcver a ! j = mdcver b ! j) \<and> mdcver a ! k \<noteq> mdcver b ! k \<longrightarrow>
      omfu_mdcver_cmp_res a b 0 = (if mdcver a ! k > mdcver b ! k then 1 else - 1)) \<and>
   ((\<forall>k < ARRAY_SIZE (mdcver a). mdcver a ! k = mdcver b ! k) \<longrightarrow>
      omfu_mdcver_cmp_res a b 0 = 0) \<and>
   omfu_mdcver_cmp_res a b 0 =
     (if mdcver_key a = mdcver_key b then 0
      else if mdcver_key a < mdcver_key b then - 1 else 1) \<and>
   omfu_mdcver_cmp a ''=='' b = Inr (mdcver_key a = mdcver_key b) \<and>
   omfu_mdcver_cmp a ''<'' b = Inr (mdcver_key a < mdcver_key b) \<and>
   omfu_mdcver_cmp a ''>'' b = Inr (mdcver_key a > mdcver_key b) \<and>
   omfu_mdcver_cmp a ''<='' b = Inr (mdcver_key a \<le> mdcver_key b) \<and>
   omfu_mdcver_cmp a ''>='' b = Inr (mdcver_key a \<ge> mdcver_key b)"
proof -
  have first: "\<forall>k < ARRAY_SIZE (mdcver a).
      (\<forall>j < k. mdcver a ! j = mdcver b ! j) \<and> mdcver a ! k \<noteq> mdcver b ! k \<longrightarrow>
      omfu_mdcver_cmp_res a b 0 = (if mdcver a ! k > mdcver b ! k then 1 else - 1)"
    using cmp_res_first_diff [of 0 _ a b] by simp
  have none: "(\<forall>k < ARRAY_SIZE (mdcver a). mdcver a ! k = mdcver b ! k) \<longrightarrow>
      omfu_mdcver_cmp_res a b 0 = 0"
    using cmp_res_all_same [of 0 a b] by simp
  have eq: "omfu_mdcver_cmp a ''=='' b = Inr (mdcver_key a = mdcver_key b)"
    by (simp add: cmp_two)
  have lt: "omfu_mdcver_cmp a ''<'' b = Inr (mdcver_key a < mdcver_key b)"
    by (simp add: cmp_single)
  have gt: "omfu_mdcver_cmp a ''>'' b = Inr (mdcver_key a > mdcver_key b)"
    by (simp add: cmp_single)
  have le: "omfu_mdcver_cmp a ''<='' b = Inr (mdcver_key a \<le> mdcver_key b)"
    by (auto simp: cmp_two)
  have ge: "omfu_mdcver_cmp a ''>='' b = Inr (mdcver_key a \<ge> mdcver_key b)"
    by (auto simp: cmp_two)
  from first none cmp_res_lex [of a b] eq lt gt le ge show ?thesis
    by blast
qed

theorem omfu_mdcver_cmp_lexicographic_witness:
  "mdcver \<lparr>mdcv_major = 1, mdcv_minor = 2, mdcv_patch = 0, mdcv_dev = 7\<rparr> ! 0 =
     mdcver \<lparr>mdcv_major = 1, mdcv_minor = 0, mdcv_patch = 9, mdcv_dev = 7\<rparr> ! 0 \<and>
   mdcver \<lparr>mdcv_major = 1, mdcv_minor = 2, mdcv_patch = 0, mdcv_dev = 7\<rparr> ! 1 \<noteq>
     mdcver \<lparr>mdcv_major = 1, mdcv_minor = 0, mdcv_patch = 9, mdcv_dev = 7\<rparr> ! 1 \<and>
   omfu_mdcver_cmp_res
     \<lparr>mdcv_major = 1, mdcv_minor = 2, mdcv_patch = 0, mdcv_dev = 7\<rparr>
     \<lparr>mdcv_major = 1, mdcv_minor = 0, mdcv_patch = 9, mdcv_dev = 7\<rparr> 0 = 1 \<and>
   omfu_mdcver_cmp
     \<lparr>mdcv_major = 1, mdcv_minor = 2, mdcv_patch = 0, mdcv_dev = 7\<rparr> ''>''
     \<lparr>mdcv_major = 1, mdcv_minor = 0, mdcv_patch = 9, mdcv_dev = 7\<rparr> = Inr True \<and>
   omfu_mdcver_cmp
     \<lparr>mdcv_major = 1, mdcv_minor = 2, mdcv_patch = 0, mdcv_dev = 7\<rparr> ''<=''
     \<lparr>mdcv_major = 1, mdcv_minor = 0, mdcv_patch = 9, mdcv_dev = 7\<rparr> = Inr False"
  using omfu_mdcver_cmp_lexicographic
    [of "\<lparr>mdcv_major = 1, mdcv_minor = 2, mdcv_patch = 0, mdcv_dev = 7\<rparr>"
        "\<lparr>mdcv_major = 1, mdcv_minor = 0, mdcv_patch = 9, mdcv_dev = 7\<rparr>"]
  by (simp add: mdcver_key_def mdcver_def)

text \<open>
  Claim C3. For every pair of version identifiers \<open>(a, b)\<close>, exactly one of
  \<^verbatim>\<open>omfu_mdcver_cmp(a, "==", b)\<close>, \<^verbatim>\<open>omfu_mdcver_cmp(a, "<", b)\<close> and
  \<^verbatim>\<open>omfu_mdcver_cmp(a, ">", b)\<close> returns true: the three calls return, and their answers are
  true, false, false or false, true, false or false, false, true.
\<close>

theorem omfu_mdcver_cmp_trichotomy:
  "(omfu_mdcver_cmp a ''=='' b = Inr True \<and> omfu_mdcver_cmp a ''<'' b = Inr False \<and>
      omfu_mdcver_cmp a ''>'' b = Inr False) \<or>
   (omfu_mdcver_cmp a ''=='' b = Inr False \<and> omfu_mdcver_cmp a ''<'' b = Inr True \<and>
      omfu_mdcver_cmp a ''>'' b = Inr False) \<or>
   (omfu_mdcver_cmp a ''=='' b = Inr False \<and> omfu_mdcver_cmp a ''<'' b = Inr False \<and>
      omfu_mdcver_cmp a ''>'' b = Inr True)"
proof -
  consider "mdcver_key a = mdcver_key b" | "mdcver_key a < mdcver_key b"
    | "mdcver_key b < mdcver_key a"
    by (rule linorder_cases [of "mdcver_key a" "mdcver_key b"]) auto
  then show ?thesis
  proof cases
    case 1
    then show ?thesis by (simp add: cmp_two cmp_single)
  next
    case 2
    then have "mdcver_key a \<noteq> mdcver_key b" "\<not> mdcver_key b < mdcver_key a"
      by auto
    with 2 show ?thesis by (simp add: cmp_two cmp_single)
  next
    case 3
    then have "mdcver_key a \<noteq> mdcver_key b" "\<not> mdcver_key a < mdcver_key b"
      by auto
    with 3 show ?thesis by (simp add: cmp_two cmp_single)
  qed
qed

theorem omfu_mdcver_cmp_trichotomy_witness:
  "omfu_mdcver_cmp
     \<lparr>mdcv_major = 1, mdcv_minor = 0, mdcv_patch = 0, mdcv_dev = 0\<rparr> ''<''
     \<lparr>mdcv_major = 1, mdcv_minor = 0, mdcv_patch = 0, mdcv_dev = 1\<rparr> = Inr True \<and>
   omfu_mdcver_cmp
     \<lparr>mdcv_major = 1, mdcv_minor = 0, mdcv_patch = 0, mdcv_dev = 0\<rparr> ''==''
     \<lparr>mdcv_major = 1, mdcv_minor = 0, mdcv_patch = 0, mdcv_dev = 1\<rparr> = Inr False \<and>
   omfu_mdcver_cmp
     \<lparr>mdcv_major = 1, mdcv_minor = 0, mdcv_patch = 0, mdcv_dev = 0\<rparr> ''>''
     \<lparr>mdcv_major = 1, mdcv_minor = 0, mdcv_patch = 0, mdcv_dev = 1\<rparr> = Inr False"
proof -
  have lt: "omfu_mdcver_cmp
     \<lparr>mdcv_major = 1, mdcv_minor = 0, mdcv_patch = 0, mdcv_dev = 0\<rparr> ''<''
     \<lparr>mdcv_major = 1, mdcv_minor = 0, mdcv_patch = 0, mdcv_dev = 1\<rparr> = Inr True"
    by (simp add: cmp_single mdcver_key_def)
  with omfu_mdcver_cmp_trichotomy
    [of "\<lparr>mdcv_major = 1, mdcv_minor = 0, mdcv_patch = 0, mdcv_dev = 0\<rparr>"
        "\<lparr>mdcv_major = 1, mdcv_minor = 0, mdcv_patch = 0, mdcv_dev = 1\<rparr>"]
  show ?thesis by simp
qed

text \<open>
  Claim C7. For every pair \<open>(a, b)\<close>, \<^verbatim>\<open>omfu_mdcver_cmp(a, ">=", b)\<close> is true exactly when
  \<^verbatim>\<open>omfu_mdcver_cmp(a, ">", b)\<close> or \<^verbatim>\<open>omfu_mdcver_cmp(a, "==", b)\<close> is, and
  \<^verbatim>\<open>omfu_mdcver_cmp(a, "<=", b)\<close> exactly when \<^verbatim>\<open>omfu_mdcver_cmp(a, "<", b)\<close> or
  \<^verbatim>\<open>omfu_mdcver_cmp(a, "==", b)\<close> is.
\<close>

theorem omfu_mdcver_cmp_ge_le_consistent:
  "omfu_mdcver_cmp a ''>='' b =
     Inr (omfu_mdcver_cmp a ''>'' b = Inr True \<or> omfu_mdcver_cmp a ''=='' b = Inr True) \<and>
   omfu_mdcver_cmp a ''<='' b =
     Inr (omfu_mdcver_cmp a ''<'' b = Inr True \<or> omfu_mdcver_cmp a ''=='' b = Inr True)"
  by (auto simp: cmp_two cmp_single)

theorem omfu_mdcver_cmp_ge_le_consistent_witness:
  "omfu_mdcver_cmp
     \<lparr>mdcv_major = 2, mdcv_minor = 0, mdcv_patch = 0, mdcv_dev = 0\<rparr> ''>=''
     \<lparr>mdcv_major = 1, mdcv_minor = 9, mdcv_patch = 9, mdcv_dev = 9\<rparr> = Inr True \<and>
   omfu_mdcver_cmp
     \<lparr>mdcv_major = 2, mdcv_minor = 0, mdcv_patch = 0, mdcv_dev = 0\<rparr> ''<=''
     \<lparr>mdcv_major = 1, mdcv_minor = 9, mdcv_patch = 9, mdcv_dev = 9\<rparr> = Inr False"
  using omfu_mdcver_cmp_ge_le_consistent
    [of "\<lparr>mdcv_major = 2, mdcv_minor = 0, mdcv_patch = 0, mdcv_dev = 0\<rparr>"
        "\<lparr>mdcv_major = 1, mdcv_minor = 9, mdcv_patch = 9, mdcv_dev = 9\<rparr>"]
  by (simp add: cmp_two cmp_single mdcver_key_def word_le_nat_alt word_less_nat_alt)

text \<open>
  Claim C8. For every version identifier \<open>a\<close>, every operator \<open>op\<close> (the five of the set
  ==, <, >, >=, <= among them) and every four literal component values,
  \<^verbatim>\<open>omfu_mdcver_cmp2(a, op, major, minor, patch, dev)\<close> returns what
  \<^verbatim>\<open>omfu_mdcver_cmp(a, op, b)\<close> returns for the version identifier \<open>b\<close> built from the four
  literals, whatever the local \<^verbatim>\<open>b\<close> held before its fields were assigned. This is the spec's
  \<^verbatim>\<open>compare_literal\<close>.
\<close>

theorem omfu_mdcver_cmp2_delegates:
  "omfu_mdcver_cmp2 s a op major minor patch dev =
     spec_compare_literal a op major minor patch dev \<and>
   omfu_mdcver_cmp2 s a op major minor patch dev =
     omfu_mdcver_cmp a op
       \<lparr>mdcv_major = major, mdcv_minor = minor, mdcv_patch = patch, mdcv_dev = dev\<rparr>"
  by (simp add: cmp2_eq_cmp spec_compare_literal_def VersionId_def)

theorem omfu_mdcver_cmp2_delegates_witness:
  "omfu_mdcver_cmp2
     \<lparr>mdcv_major = 5, mdcv_minor = 6, mdcv_patch = 7, mdcv_dev = 8\<rparr>
     \<lparr>mdcv_major = 1, mdcv_minor = 0, mdcv_patch = 0, mdcv_dev = 0\<rparr> ''>'' 0 9 9 9 =
   Inr True"
  using omfu_mdcver_cmp2_delegates
    [of "\<lparr>mdcv_major = 5, mdcv_minor = 6, mdcv_patch = 7, mdcv_dev = 8\<rparr>"
        "\<lparr>mdcv_major = 1, mdcv_minor = 0, mdcv_patch = 0, mdcv_dev = 0\<rparr>" "''>''" 0 9 9 9]
  by (simp add: cmp_single mdcver_key_def spec_compare_literal_def VersionId_def)

text \<open>
  Claim C9. \<^verbatim>\<open>omfu_mdcver_cmp\<close> inspects only the first two characters of its operator string:
  for every pair \<open>(a, b)\<close> and every operator string \<open>op\<close> of length at least 2 it returns the
  answer it returns on the first two characters alone, and it returns true if and only if
  \<open>op\<close>'s second character is \<^verbatim>\<open>=\<close> and \<open>a\<close> equals \<open>b\<close> componentwise, or \<open>op\<close>'s first
  character is \<^verbatim>\<open>>\<close> and \<open>a\<close> is lexicographically greater than \<open>b\<close>, or \<open>op\<close>'s first
  character is \<^verbatim>\<open><\<close> and \<open>a\<close> is lexicographically less than \<open>b\<close>. In particular the
  unrecognised operator \<^verbatim>\<open>!=\<close> applied to two equal version identifiers returns true.
\<close>

theorem omfu_mdcver_cmp_first_two_chars:
  "(2 \<le> length op \<longrightarrow>
      omfu_mdcver_cmp a op b =
        Inr ((op ! 1 = CHR ''='' \<and> mdcver a = mdcver b) \<or>
             (op ! 0 = CHR ''>'' \<and> mdcver_key a > mdcver_key b) \<or>
             (op ! 0 = CHR ''<'' \<and> mdcver_key a < mdcver_key b)) \<and>
      omfu_mdcver_cmp a op b = omfu_mdcver_cmp a (take 2 op) b) \<and>
   omfu_mdcver_cmp a ''!='' a = Inr True"
proof -
  have keys: "mdcver a = mdcver b \<longleftrightarrow> mdcver_key a = mdcver_key b"
    by (simp add: mdcver_def mdcver_key_def)
  have long: "omfu_mdcver_cmp a op b =
        Inr ((op ! 1 = CHR ''='' \<and> mdcver a = mdcver b) \<or>
             (op ! 0 = CHR ''>'' \<and> mdcver_key a > mdcver_key b) \<or>
             (op ! 0 = CHR ''<'' \<and> mdcver_key a < mdcver_key b)) \<and>
      omfu_mdcver_cmp a op b = omfu_mdcver_cmp a (take 2 op) b"
    if len: "2 \<le> length op"
  proof -
    from len obtain c d cs where op: "op = c # d # cs"
      by (cases op; cases "tl op") auto
    show ?thesis
      by (simp add: op cmp_two keys numeral_2_eq_2)
  qed
  have neq: "omfu_mdcver_cmp a ''!='' a = Inr True"
    by (simp add: cmp_two)
  from long neq show ?thesis
    by blast
qed

theorem omfu_mdcver_cmp_first_two_chars_witness:
  "2 \<le> length ''>>>'' \<and>
   omfu_mdcver_cmp
     \<lparr>mdcv_major = 1, mdcv_minor = 0, mdcv_patch = 0, mdcv_dev = 0\<rparr> ''>>>''
     \<lparr>mdcv_major = 0, mdcv_minor = 3, mdcv_patch = 0, mdcv_dev = 0\<rparr> = Inr True \<and>
   omfu_mdcver_cmp
     \<lparr>mdcv_major = 1, mdcv_minor = 0, mdcv_patch = 0, mdcv_dev = 0\<rparr> ''>>''
     \<lparr>mdcv_major = 0, mdcv_minor = 3, mdcv_patch = 0, mdcv_dev = 0\<rparr> = Inr True"
  using omfu_mdcver_cmp_first_two_chars
    [of "''>>>''" "\<lparr>mdcv_major = 1, mdcv_minor = 0, mdcv_patch = 0, mdcv_dev = 0\<rparr>"
        "\<lparr>mdcv_major = 0, mdcv_minor = 3, mdcv_patch = 0, mdcv_dev = 0\<rparr>"]
  by (auto simp: mdcver_key_def mdcver_def)

text \<open>
  Claim C2, as stated: an operator token outside the set ==, <, >, >=, <= is rejected and
  never taken for one of the valid operators. The source has no check of the operator, and
  its return type has no value for a rejection. The token \<^verbatim>\<open>!=\<close> is outside the set, and on
  two equal version identifiers both routines return true, as they do for \<^verbatim>\<open>==\<close>.
\<close>

theorem invalid_operator_not_rejected:
  "''!='' \<notin> {''=='', ''<'', ''>'', ''>='', ''<=''} \<and>
   omfu_mdcver_cmp
     \<lparr>mdcv_major = 1, mdcv_minor = 0, mdcv_patch = 0, mdcv_dev = 0\<rparr> ''!=''
     \<lparr>mdcv_major = 1, mdcv_minor = 0, mdcv_patch = 0, mdcv_dev = 0\<rparr> = Inr True \<and>
   omfu_mdcver_cmp
     \<lparr>mdcv_major = 1, mdcv_minor = 0, mdcv_patch = 0, mdcv_dev = 0\<rparr> ''==''
     \<lparr>mdcv_major = 1, mdcv_minor = 0, mdcv_patch = 0, mdcv_dev = 0\<rparr> = Inr True \<and>
   omfu_mdcver_cmp2
     \<lparr>mdcv_major = 0, mdcv_minor = 0, mdcv_patch = 0, mdcv_dev = 0\<rparr>
     \<lparr>mdcv_major = 1, mdcv_minor = 0, mdcv_patch = 0, mdcv_dev = 0\<rparr> ''!='' 1 0 0 0 =
     Inr True"
  by (simp add: cmp_two cmp2_eq_cmp)

text \<open>
  Claim C2, amended. For every pair of version identifiers and every operator string of at
  least one character, inside the set or outside it, \<^verbatim>\<open>omfu_mdcver_cmp\<close> and
  \<^verbatim>\<open>omfu_mdcver_cmp2\<close> return a truth value and never reject the call. A token outside the
  set is answered by the same test of its first and second character as a valid one: with
  \<^verbatim>\<open>=\<close> second it is answered as \<^verbatim>\<open>>=\<close>, \<^verbatim>\<open><=\<close> or \<^verbatim>\<open>==\<close> according to whether the
  first character is \<^verbatim>\<open>>\<close>, \<^verbatim>\<open><\<close> or anything else; otherwise as \<^verbatim>\<open>>\<close> or \<^verbatim>\<open><\<close> when
  that is the first character, and with false when it is neither.
\<close>

theorem omfu_mdcver_cmp_operator_unchecked:
  assumes "op \<noteq> []"
  shows "\<exists>c0 c1 r.
      cstr_at op 0 = Inr c0 \<and> cstr_at op 1 = Inr c1 \<and>
      omfu_mdcver_cmp a op b = Inr r \<and>
      omfu_mdcver_cmp2 s a op (mdcv_major b) (mdcv_minor b) (mdcv_patch b) (mdcv_dev b) = Inr r \<and>
      Inr r =
        (if c1 = CHR ''='' then
           (if c0 = CHR ''>'' then omfu_mdcver_cmp a ''>='' b
            else if c0 = CHR ''<'' then omfu_mdcver_cmp a ''<='' b
            else omfu_mdcver_cmp a ''=='' b)
         else
           (if c0 = CHR ''>'' then omfu_mdcver_cmp a ''>'' b
            else if c0 = CHR ''<'' then omfu_mdcver_cmp a ''<'' b
            else Inr False))"
proof -
  have b: "\<lparr>mdcv_major = mdcv_major b, mdcv_minor = mdcv_minor b,
            mdcv_patch = mdcv_patch b, mdcv_dev = mdcv_dev b\<rparr> = b"
    by simp
  from assms obtain c cs where op: "op = c # cs"
    by (cases op) auto
  show ?thesis
  proof (cases cs)
    case Nil
    with op show ?thesis
      by (auto simp: cmp2_eq_cmp b cmp_single cmp_two cstr_at_0 cstr_at_1_single NUL_not_eq)
  next
    case (Cons d ds)
    with op show ?thesis
      by (auto simp: cmp2_eq_cmp b cmp_single cmp_two cstr_at_0 cstr_at_1)
  qed
qed

theorem omfu_mdcver_cmp_operator_unchecked_witness:
  "''=>'' \<noteq> [] \<and>
   omfu_mdcver_cmp
     \<lparr>mdcv_major = 2, mdcv_minor = 0, mdcv_patch = 0, mdcv_dev = 0\<rparr> ''=>''
     \<lparr>mdcv_major = 1, mdcv_minor = 0, mdcv_patch = 0, mdcv_dev = 0\<rparr> = Inr False \<and>
   omfu_mdcver_cmp2
     \<lparr>mdcv_major = 0, mdcv_minor = 0, mdcv_patch = 0, mdcv_dev = 0\<rparr>
     \<lparr>mdcv_major = 2, mdcv_minor = 0, mdcv_patch = 0, mdcv_dev = 0\<rparr> ''=>'' 1 0 0 0 =
     Inr False"
proof -
  have ne: "''=>'' \<noteq> []"
    by simp
  from omfu_mdcver_cmp_operator_unchecked
    [OF ne, of "\<lparr>mdcv_major = 2, mdcv_minor = 0, mdcv_patch = 0, mdcv_dev = 0\<rparr>"
       "\<lparr>mdcv_major = 1, mdcv_minor = 0, mdcv_patch = 0, mdcv_dev = 0\<rparr>"
       "\<lparr>mdcv_major = 0, mdcv_minor = 0, mdcv_patch = 0, mdcv_dev = 0\<rparr>"]
  show ?thesis
    by (auto simp: cstr_at_0 cstr_at_1)
qed

subsection \<open>The table of versions\<close>

lemma mdcvtab_length: "length mdcvtab = 1"
  by (simp add: mdcvtab_def)

lemma mdcvtab_last_index:
  "unat ((of_nat (ARRAY_SIZE mdcvtab) :: size_t) - 1) = length mdcvtab - 1"
  by (simp add: ARRAY_SIZE_def mdcvtab_length)

lemma cmp_eq_iff: "omfu_mdcver_cmp a ''=='' b = Inr (a = b)"
  by (simp add: cmp_two mdcver_key_eq_iff)

text \<open>
  The loop returns the comment of the first entry, from \<open>i\<close> on, whose version is the one
  asked for, and \<open>None\<close> when there is none.
\<close>

lemma comment_from_find:
  "omfu_mdcver_comment_from tab ver i =
     Inr (map_option mi_comment (find (\<lambda>e. mi_mdcver e = ver) (drop i tab)))"
proof (induction tab ver i rule: omfu_mdcver_comment_from.induct)
  case (1 tab ver i)
  show ?case
  proof (cases "i < length tab")
    case False
    then show ?thesis
      by (subst omfu_mdcver_comment_from.simps) (simp add: ARRAY_SIZE_def)
  next
    case True
    then have dr: "drop i tab = tab ! i # drop (Suc i) tab"
      by (simp add: Cons_nth_drop_Suc)
    show ?thesis
    proof (cases "ver = mi_mdcver (tab ! i)")
      case same: True
      with True dr show ?thesis
        by (subst omfu_mdcver_comment_from.simps) (simp add: ARRAY_SIZE_def cmp_eq_iff)
    next
      case differ: False
      have cmp: "omfu_mdcver_cmp ver ''=='' (mi_mdcver (tab ! i)) = Inr False"
        using differ by (simp add: cmp_eq_iff)
      from True have inb: "i < ARRAY_SIZE tab"
        by (simp add: ARRAY_SIZE_def)
      have "omfu_mdcver_comment_from tab ver (i + 1) =
          Inr (map_option mi_comment (find (\<lambda>e. mi_mdcver e = ver) (drop (i + 1) tab)))"
        using "1.IH" [OF inb cmp] by simp
      with True dr differ cmp show ?thesis
        by (subst omfu_mdcver_comment_from.simps) (auto simp: ARRAY_SIZE_def)
    qed
  qed
qed

lemma version_eq_iff:
  "(a :: omf_mdcver) = b \<longleftrightarrow>
     mdcv_major a = mdcv_major b \<and> mdcv_minor a = mdcv_minor b \<and>
     mdcv_patch a = mdcv_patch b \<and> mdcv_dev a = mdcv_dev b"
  by (cases a, cases b) auto

lemma cur_value:
  "omfu_mdcver_cur =
     Inr \<lparr>mdcv_major = 1, mdcv_minor = 0, mdcv_patch = 0, mdcv_dev = 0\<rparr>"
  by (simp add: omfu_mdcver_cur_def mdcvtab_last_index array_at_def mdcvtab_length)
     (simp add: mdcvtab_def MDCVER_MAJOR_def MDCVER_MINOR_def MDCVER_PATCH_def MDCVER_DEV_def)

text \<open>
  Claim C4. \<^verbatim>\<open>omfu_mdcver_cur\<close> never fails and returns the version field of the last
  (highest-index) entry of the table \<^verbatim>\<open>mdcvtab\<close>: the table is not empty, the index
  \<^verbatim>\<open>ARRAY_SIZE(mdcvtab) - 1\<close> is that of its last entry, and for the shipped table the version
  returned is 1.0.0.0.
\<close>

theorem omfu_mdcver_cur_last_entry:
  "mdcvtab \<noteq> [] \<and>
   unat ((of_nat (ARRAY_SIZE mdcvtab) :: size_t) - 1) = length mdcvtab - 1 \<and>
   omfu_mdcver_cur = Inr (mi_mdcver (last mdcvtab)) \<and>
   omfu_mdcver_cur = Inr \<lparr>mdcv_major = 1, mdcv_minor = 0, mdcv_patch = 0, mdcv_dev = 0\<rparr>"
proof -
  have ne: "mdcvtab \<noteq> []"
    by (simp add: mdcvtab_def)
  have "omfu_mdcver_cur = Inr (mi_mdcver (last mdcvtab))"
    using ne
    by (simp add: omfu_mdcver_cur_def mdcvtab_last_index array_at_def last_conv_nth)
  with ne mdcvtab_last_index cur_value show ?thesis
    by simp
qed

text \<open>
  Claim C5. For every version identifier \<open>v\<close>, \<^verbatim>\<open>omfu_mdcver_comment\<close> scans the table in order
  for an entry whose version equals \<open>v\<close> in all four components and returns the comment of
  the first such entry; when no entry matches it returns the not-found signal (\<^verbatim>\<open>NULL\<close>), and
  it never fails. This holds of the loop over any table, and of the shipped table. In
  particular \<^verbatim>\<open>omfu_mdcver_comment(omfu_mdcver_cur())\<close> returns the last entry's comment, a
  version absent from the table yields not-found, and so does 2.0.0.0.
\<close>

theorem omfu_mdcver_comment_exact_match:
  "omfu_mdcver_comment_from tab v 0 =
     Inr (map_option mi_comment
       (find (\<lambda>e. mdcv_major (mi_mdcver e) = mdcv_major v \<and>
                  mdcv_minor (mi_mdcver e) = mdcv_minor v \<and>
                  mdcv_patch (mi_mdcver e) = mdcv_patch v \<and>
                  mdcv_dev (mi_mdcver e) = mdcv_dev v) tab)) \<and>
   omfu_mdcver_comment v =
     Inr (map_option mi_comment
       (find (\<lambda>e. mdcv_major (mi_mdcver e) = mdcv_major v \<and>
                  mdcv_minor (mi_mdcver e) = mdcv_minor v \<and>
                  mdcv_patch (mi_mdcver e) = mdcv_patch v \<and>
                  mdcv_dev (mi_mdcver e) = mdcv_dev v) mdcvtab)) \<and>
   (\<exists>cur. omfu_mdcver_cur = Inr cur \<and>
      omfu_mdcver_comment cur = Inr (Some (mi_comment (last mdcvtab)))) \<and>
   (v \<notin> mi_mdcver ` set mdcvtab \<longrightarrow> omfu_mdcver_comment v = Inr None) \<and>
   omfu_mdcver_comment \<lparr>mdcv_major = 2, mdcv_minor = 0, mdcv_patch = 0, mdcv_dev = 0\<rparr> =
     Inr None"
proof -
  have scan: "omfu_mdcver_comment_from t v 0 =
     Inr (map_option mi_comment
       (find (\<lambda>e. mdcv_major (mi_mdcver e) = mdcv_major v \<and>
                  mdcv_minor (mi_mdcver e) = mdcv_minor v \<and>
                  mdcv_patch (mi_mdcver e) = mdcv_patch v \<and>
                  mdcv_dev (mi_mdcver e) = mdcv_dev v) t))" for t
    using comment_from_find [of t v 0] version_eq_iff [of _ v] by simp
  have cur: "omfu_mdcver_comment
      \<lparr>mdcv_major = 1, mdcv_minor = 0, mdcv_patch = 0, mdcv_dev = 0\<rparr> =
        Inr (Some (mi_comment (last mdcvtab)))"
    by (simp add: omfu_mdcver_comment_def comment_from_find)
       (simp add: mdcvtab_def MDCVER_MAJOR_def MDCVER_MINOR_def MDCVER_PATCH_def
          MDCVER_DEV_def)
  have absent: "omfu_mdcver_comment v = Inr None" if "v \<notin> mi_mdcver ` set mdcvtab"
  proof -
    from that have "find (\<lambda>e. mi_mdcver e = v) mdcvtab = None"
      by (auto simp: find_None_iff)
    then show ?thesis
      by (simp add: omfu_mdcver_comment_def comment_from_find)
  qed
  have two: "omfu_mdcver_comment
      \<lparr>mdcv_major = 2, mdcv_minor = 0, mdcv_patch = 0, mdcv_dev = 0\<rparr> = Inr None"
    by (simp add: omfu_mdcver_comment_def comment_from_find)
       (simp add: mdcvtab_def MDCVER_MAJOR_def MDCVER_MINOR_def MDCVER_PATCH_def
          MDCVER_DEV_def)
  from scan [of tab] scan [of mdcvtab] cur cur_value absent two show ?thesis
    unfolding omfu_mdcver_comment_def by blast
qed

theorem omfu_mdcver_comment_exact_match_witness:
  "\<lparr>mdcv_major = 1, mdcv_minor = 0, mdcv_patch = 0, mdcv_dev = 1\<rparr>
     \<notin> mi_mdcver ` set mdcvtab \<and>
   omfu_mdcver_comment \<lparr>mdcv_major = 1, mdcv_minor = 0, mdcv_patch = 0, mdcv_dev = 1\<rparr> =
     Inr None \<and>
   omfu_mdcver_comment \<lparr>mdcv_major = 1, mdcv_minor = 0, mdcv_patch = 0, mdcv_dev = 0\<rparr> =
     Inr (Some ''Initial mpool MDCs content'')"
proof -
  have absent: "\<lparr>mdcv_major = 1, mdcv_minor = 0, mdcv_patch = 0, mdcv_dev = 1\<rparr>
     \<notin> mi_mdcver ` set mdcvtab"
    by (simp add: mdcvtab_def MDCVER_MAJOR_def MDCVER_MINOR_def MDCVER_PATCH_def
          MDCVER_DEV_def)
  have last: "mi_comment (last mdcvtab) = ''Initial mpool MDCs content''"
    by (simp add: mdcvtab_def)
  note inst = omfu_mdcver_comment_exact_match
    [of mdcvtab "\<lparr>mdcv_major = 1, mdcv_minor = 0, mdcv_patch = 0, mdcv_dev = 1\<rparr>"]
  from inst obtain cur where cur: "omfu_mdcver_cur = Inr cur"
    and com: "omfu_mdcver_comment cur = Inr (Some (mi_comment (last mdcvtab)))"
    by blast
  from trans [OF cur [symmetric] cur_value]
  have "cur = \<lparr>mdcv_major = 1, mdcv_minor = 0, mdcv_patch = 0, mdcv_dev = 0\<rparr>"
    by (simp only: sum.inject)
  with com last have "omfu_mdcver_comment
      \<lparr>mdcv_major = 1, mdcv_minor = 0, mdcv_patch = 0, mdcv_dev = 0\<rparr> =
        Inr (Some ''Initial mpool MDCs content'')"
    by simp
  moreover from inst absent have "omfu_mdcver_comment
      \<lparr>mdcv_major = 1, mdcv_minor = 0, mdcv_patch = 0, mdcv_dev = 1\<rparr> = Inr None"
    by blast
  ultimately show ?thesis
    using absent by blast
qed

subsection \<open>Decimal digits, memory and the formatted text\<close>

lemma digit_cases:
  "(d::nat) < 10 \<Longrightarrow>
   d = 0 \<or> d = 1 \<or> d = 2 \<or> d = 3 \<or> d = 4 \<or> d = 5 \<or> d = 6 \<or> d = 7 \<or> d = 8 \<or> d = 9"
  by arith

lemma digit_char_is_digit: "d < 10 \<Longrightarrow> is_digit (digit_char d)"
  by (drule digit_cases) (auto simp: digit_char_def is_digit_def)

lemma digit_value_digit_char: "d < 10 \<Longrightarrow> digit_value (digit_char d) = d"
  by (drule digit_cases) (auto simp: digit_char_def digit_value_def)

lemma digit_char_zero_iff: "d < 10 \<Longrightarrow> digit_char d = CHR ''0'' \<longleftrightarrow> d = 0"
  by (drule digit_cases) (auto simp: digit_char_def)

lemma is_digit_not_dot: "is_digit c \<Longrightarrow> c \<noteq> CHR ''.''"
  by (auto simp: is_digit_def)

lemma is_digit_not_NUL: "is_digit c \<Longrightarrow> c \<noteq> NUL"
  by (auto simp: is_digit_def NUL_def)

lemma utoa_nonempty: "utoa n \<noteq> []"
  by (subst utoa.simps) simp

lemma utoa_digits: "list_all is_digit (utoa n)"
proof (induction n rule: utoa.induct)
  case (1 n)
  show ?case
  proof (cases "n < 10")
    case True
    then show ?thesis
      by (subst utoa.simps) (simp add: digit_char_is_digit)
  next
    case False
    with "1.IH" show ?thesis
      by (subst utoa.simps) (simp add: digit_char_is_digit)
  qed
qed

lemma decimal_value_snoc:
  "decimal_value (s @ [c]) = 10 * decimal_value s + digit_value c"
  by (simp add: decimal_value_def)

lemma utoa_value: "decimal_value (utoa n) = n"
proof (induction n rule: utoa.induct)
  case (1 n)
  show ?case
  proof (cases "n < 10")
    case True
    then show ?thesis
      by (subst utoa.simps) (simp add: decimal_value_def digit_value_digit_char)
  next
    case False
    with "1.IH" show ?thesis
      by (subst utoa.simps) (simp add: decimal_value_snoc digit_value_digit_char)
  qed
qed

lemma utoa_hd_zero: "hd (utoa n) = CHR ''0'' \<Longrightarrow> n = 0"
proof (induction n rule: utoa.induct)
  case (1 n)
  show ?case
  proof (cases "n < 10")
    case True
    with "1.prems" show ?thesis
      by (subst (asm) utoa.simps) (simp add: digit_char_zero_iff)
  next
    case False
    with "1.prems" have "hd (utoa (n div 10)) = CHR ''0''"
      by (subst (asm) utoa.simps) (simp add: utoa_nonempty)
    with "1.IH" False have "n div 10 = 0"
      by simp
    with False show ?thesis
      by simp
  qed
qed

lemma utoa_zero: "utoa 0 = ''0''"
  by (subst utoa.simps) (simp add: digit_char_def)

lemma utoa_decimal_of: "decimal_of n (utoa n)"
  using utoa_hd_zero [of n] utoa_zero
  by (auto simp: decimal_of_def is_decimal_def utoa_nonempty utoa_digits utoa_value)

lemma utoa_length: "0 < k \<Longrightarrow> n < 10 ^ k \<Longrightarrow> length (utoa n) \<le> k"
proof (induction n arbitrary: k rule: utoa.induct)
  case (1 n)
  show ?case
  proof (cases "n < 10")
    case True
    with "1.prems" show ?thesis
      by (subst utoa.simps) simp
  next
    case False
    with "1.prems" obtain j where k: "k = Suc j" and j: "0 < j"
      by (cases k; cases "k - 1") auto
    from "1.prems" k have "n div 10 < 10 ^ j"
      by (simp add: less_mult_imp_div_less)
    with "1.IH" [OF False j] have "length (utoa (n div 10)) \<le> j"
      by simp
    with False k show ?thesis
      by (subst utoa.simps) simp
  qed
qed

lemma utoa_u16_length: "length (utoa (unat (w :: u16))) \<le> 5"
proof -
  have "unat w < 2 ^ 16"
    using unsigned_less [of w] by simp
  then have "unat w < 10 ^ 5"
    by simp
  with utoa_length [of 5 "unat w"] show ?thesis
    by simp
qed

lemma vformat_u4:
  "vformat ''%u.%u.%u.%u'' [a, b, c, d] =
     Inr (utoa a @ ''.'' @ utoa b @ ''.'' @ utoa c @ ''.'' @ utoa d)"
  by simp


lemma store_bytes_outside:
  "q < p \<or> p + length bs \<le> q \<Longrightarrow> store_bytes m p bs q = m q"
  by (induction bs arbitrary: m p) auto

lemma load_store_bytes: "load_bytes (store_bytes m p bs) p (length bs) = bs"
proof (induction bs arbitrary: m p)
  case Nil
  show ?case by simp
next
  case (Cons c cs)
  have "store_bytes (m(p := c)) (Suc p) cs p = c"
    by (simp add: store_bytes_outside)
  with Cons show ?case
    by simp
qed

lemma cstring_store_bytes:
  "NUL \<notin> set s \<Longrightarrow> length s < n \<Longrightarrow>
   cstring_in (store_bytes m p (s @ [NUL])) p n = s"
proof (induction s arbitrary: m p n)
  case Nil
  then obtain k where "n = Suc k"
    by (cases n) auto
  then show ?case
    by simp
next
  case (Cons c cs)
  from Cons.prems obtain k where n: "n = Suc k" and k: "length cs < k"
    by (cases n) auto
  have here: "store_bytes (m(p := c)) (Suc p) (cs @ [NUL]) p = c"
    by (simp add: store_bytes_outside)
  from Cons.prems have "c \<noteq> NUL" "NUL \<notin> set cs"
    by auto
  with Cons.IH [OF _ k] here n show ?case
    by simp
qed

lemma utoa_no_NUL: "NUL \<notin> set (utoa n)"
  using utoa_digits [of n] is_digit_not_NUL by (auto simp: list_all_iff)

lemma utoa_no_dot: "CHR ''.'' \<notin> set (utoa n)"
  using utoa_digits [of n] is_digit_not_dot by (auto simp: list_all_iff)

lemma mdcver_text_no_NUL: "NUL \<notin> set (mdcver_text v)"
  by (simp add: mdcver_text_def utoa_no_NUL) (simp add: NUL_def)

lemma mdcver_text_length: "length (mdcver_text v) \<le> 23"
  using utoa_u16_length [of "mdcv_major v"] utoa_u16_length [of "mdcv_minor v"]
    utoa_u16_length [of "mdcv_patch v"] utoa_u16_length [of "mdcv_dev v"]
  by (simp add: mdcver_text_def)

lemma snprintf_mdcver:
  "snprintf m buf sz ''%u.%u.%u.%u''
     [unat (mdcv_major v), unat (mdcv_minor v), unat (mdcv_patch v), unat (mdcv_dev v)] =
   Inr (if sz = 0 then m else store_bytes m buf (take (sz - 1) (mdcver_text v) @ [NUL]),
        int (length (mdcver_text v)))"
  unfolding snprintf_def vformat_u4 mdcver_text_def by simp

lemma to_str_eq:
  "omfu_mdcver_to_str m v buf sz =
     Inr (buf, if sz = 0 then m
               else store_bytes m buf (take (sz - 1) (mdcver_text v) @ [NUL]))"
  unfolding omfu_mdcver_to_str_def snprintf_mdcver by simp

lemma to_str_text_pos:
  "0 < sz \<Longrightarrow> to_str_text m v buf sz = Inr (take (sz - 1) (mdcver_text v))"
proof -
  assume sz: "0 < sz"
  have "NUL \<notin> set (take (sz - 1) (mdcver_text v))"
    using mdcver_text_no_NUL [of v] by (auto dest: in_set_takeD)
  moreover from sz have "length (take (sz - 1) (mdcver_text v)) < sz"
    by simp
  ultimately show ?thesis
    using sz by (simp add: to_str_text_def to_str_eq cstring_store_bytes)
qed

lemma to_str_text_full:
  "24 \<le> sz \<Longrightarrow> to_str_text m v buf sz = Inr (mdcver_text v)"
  using mdcver_text_length [of v] by (simp add: to_str_text_pos)

lemma split_at_no_sep: "sep \<notin> set s \<Longrightarrow> split_at sep s = [s]"
  by (induction s) auto

lemma split_at_append:
  "sep \<notin> set s \<Longrightarrow> split_at sep (s @ sep # t) = s # split_at sep t"
  by (induction s) auto

lemma split_mdcver_text:
  "split_at (CHR ''.'') (mdcver_text v) =
     [utoa (unat (mdcv_major v)), utoa (unat (mdcv_minor v)),
      utoa (unat (mdcv_patch v)), utoa (unat (mdcv_dev v))]"
  by (simp add: mdcver_text_def split_at_append split_at_no_sep utoa_no_dot)

lemma spec_to_string_text: "spec_to_string v (mdcver_text v)"
  by (simp add: spec_to_string_def split_mdcver_text utoa_decimal_of)

lemma spec_to_string_inj:
  assumes "spec_to_string v s" and "spec_to_string w s"
  shows "v = w"
proof -
  from assms(1) obtain s1 s2 s3 s4 where
    parts: "split_at (CHR ''.'') s = [s1, s2, s3, s4]"
    by (auto simp: spec_to_string_def split: list.splits)
  with assms have
    "unat (mdcv_major v) = unat (mdcv_major w)" "unat (mdcv_minor v) = unat (mdcv_minor w)"
    "unat (mdcv_patch v) = unat (mdcv_patch w)" "unat (mdcv_dev v) = unat (mdcv_dev w)"
    by (auto simp: spec_to_string_def decimal_of_def)
  then have "mdcv_major v = mdcv_major w" "mdcv_minor v = mdcv_minor w"
    "mdcv_patch v = mdcv_patch w" "mdcv_dev v = mdcv_dev w"
    by (simp_all add: word_unat_eq_iff)
  then show ?thesis
    by (simp add: version_eq_iff)
qed


lemma to_str_text_fits:
  "length (mdcver_text v) < sz \<Longrightarrow> to_str_text m v buf sz = Inr (mdcver_text v)"
  by (simp add: to_str_text_pos)

lemma mdcver_text_1000:
  "mdcver_text \<lparr>mdcv_major = 1, mdcv_minor = 0, mdcv_patch = 0, mdcv_dev = 0\<rparr> = ''1.0.0.0''"
  by (simp add: mdcver_text_def utoa.simps digit_char_def)

subsection \<open>Claims about the rendering\<close>

text \<open>
  Claim C6, as stated, holds of every call of \<^verbatim>\<open>omfu_mdcver_to_str\<close>, whatever the size of
  the buffer: the text rendered is the canonical one, and distinct version identifiers
  render to distinct strings. With \<^verbatim>\<open>sz = 23\<close> the versions 65535.65535.65535.65535 and
  65535.65535.65535.6553 are different and both render to \<^verbatim>\<open>65535.65535.65535.6553\<close>, which
  is not the canonical text of the first: its last numeral denotes 6553, not 65535.
\<close>

theorem to_str_short_buffer_counterexample:
  "to_str_text (mem_fill (CHR ''x''))
     \<lparr>mdcv_major = 65535, mdcv_minor = 65535, mdcv_patch = 65535, mdcv_dev = 65535\<rparr> 0 23 =
     Inr ''65535.65535.65535.6553'' \<and>
   to_str_text (mem_fill (CHR ''x''))
     \<lparr>mdcv_major = 65535, mdcv_minor = 65535, mdcv_patch = 65535, mdcv_dev = 6553\<rparr> 0 23 =
     Inr ''65535.65535.65535.6553'' \<and>
   \<lparr>mdcv_major = 65535, mdcv_minor = 65535, mdcv_patch = 65535, mdcv_dev = 65535\<rparr> \<noteq>
     \<lparr>mdcv_major = 65535, mdcv_minor = 65535, mdcv_patch = 65535, mdcv_dev = (6553 :: u16)\<rparr> \<and>
   \<not> spec_to_string
     \<lparr>mdcv_major = 65535, mdcv_minor = 65535, mdcv_patch = 65535, mdcv_dev = 65535\<rparr>
     ''65535.65535.65535.6553''"
proof -
  have digits: "utoa 65535 = ''65535''" "utoa 6553 = ''6553''"
    by (simp_all add: utoa.simps digit_char_def)
  have long: "to_str_text (mem_fill (CHR ''x''))
     \<lparr>mdcv_major = 65535, mdcv_minor = 65535, mdcv_patch = 65535, mdcv_dev = 65535\<rparr> 0 23 =
     Inr ''65535.65535.65535.6553''"
    by (simp add: to_str_text_pos mdcver_text_def digits)
  have short: "to_str_text (mem_fill (CHR ''x''))
     \<lparr>mdcv_major = 65535, mdcv_minor = 65535, mdcv_patch = 65535, mdcv_dev = 6553\<rparr> 0 23 =
     Inr ''65535.65535.65535.6553''"
    by (simp add: to_str_text_pos mdcver_text_def digits)
  have differ:
    "\<lparr>mdcv_major = 65535, mdcv_minor = 65535, mdcv_patch = 65535, mdcv_dev = 65535\<rparr> \<noteq>
     \<lparr>mdcv_major = 65535, mdcv_minor = 65535, mdcv_patch = 65535, mdcv_dev = (6553 :: u16)\<rparr>"
    by simp
  have denotes: "decimal_value ''6553'' = 6553"
    by (simp add: decimal_value_def digit_value_def)
  have wrong: "\<not> spec_to_string
     \<lparr>mdcv_major = 65535, mdcv_minor = 65535, mdcv_patch = 65535, mdcv_dev = 65535\<rparr>
     ''65535.65535.65535.6553''"
    by (simp add: spec_to_string_def decimal_of_def denotes)
  from long short differ wrong show ?thesis
    by blast
qed

text \<open>
  Claim C6, amended. For every version identifier \<open>v\<close> (its four components are 16-bit
  values), \<^verbatim>\<open>omfu_mdcver_to_str\<close> called with a buffer size of at least 24 renders the
  canonical text major.minor.patch.dev: the four components in decimal, each without a
  leading zero other than the single \<^verbatim>\<open>0\<close>, joined by periods. Under that size the rendering
  is unambiguous: distinct version identifiers render to distinct strings. The version
  1.0.0.0 renders as \<^verbatim>\<open>1.0.0.0\<close>, for which a size of 8 is enough.
\<close>

theorem omfu_mdcver_to_str_canonical:
  "(24 \<le> sz \<longrightarrow>
      (\<exists>s. to_str_text m v buf sz = Inr s \<and> spec_to_string v s \<and>
           s = utoa (unat (mdcv_major v)) @ ''.'' @ utoa (unat (mdcv_minor v)) @ ''.'' @
               utoa (unat (mdcv_patch v)) @ ''.'' @ utoa (unat (mdcv_dev v)))) \<and>
   (24 \<le> sz \<and> 24 \<le> sz' \<and> v \<noteq> w \<longrightarrow>
      to_str_text m v buf sz \<noteq> to_str_text m' w buf' sz') \<and>
   (8 \<le> sz \<longrightarrow>
      to_str_text m \<lparr>mdcv_major = 1, mdcv_minor = 0, mdcv_patch = 0, mdcv_dev = 0\<rparr> buf sz =
        Inr ''1.0.0.0'')"
proof -
  have canon: "\<exists>s. to_str_text m v buf sz = Inr s \<and> spec_to_string v s \<and>
           s = utoa (unat (mdcv_major v)) @ ''.'' @ utoa (unat (mdcv_minor v)) @ ''.'' @
               utoa (unat (mdcv_patch v)) @ ''.'' @ utoa (unat (mdcv_dev v))"
    if "24 \<le> sz"
    using that spec_to_string_text [of v] to_str_text_full [of sz m v buf]
    by (simp add: mdcver_text_def)
  have inj: "to_str_text m v buf sz \<noteq> to_str_text m' w buf' sz'"
    if "24 \<le> sz" "24 \<le> sz'" "v \<noteq> w"
  proof
    assume "to_str_text m v buf sz = to_str_text m' w buf' sz'"
    with that have "mdcver_text v = mdcver_text w"
      by (simp add: to_str_text_full)
    with spec_to_string_text [of v] spec_to_string_text [of w] have "v = w"
      by (auto intro: spec_to_string_inj)
    with that show False
      by simp
  qed
  have ex: "to_str_text m \<lparr>mdcv_major = 1, mdcv_minor = 0, mdcv_patch = 0, mdcv_dev = 0\<rparr> buf sz =
        Inr ''1.0.0.0''" if "8 \<le> sz"
    using that by (simp add: to_str_text_fits mdcver_text_1000)
  from canon inj ex show ?thesis
    by blast
qed

theorem omfu_mdcver_to_str_canonical_witness:
  "(24::nat) \<le> 32 \<and> (24::nat) \<le> 24 \<and> (8::nat) \<le> 8 \<and>
   to_str_text (mem_fill (CHR ''x''))
     \<lparr>mdcv_major = 65535, mdcv_minor = 0, mdcv_patch = 10, mdcv_dev = 907\<rparr> 0 32 =
     Inr ''65535.0.10.907'' \<and>
   spec_to_string \<lparr>mdcv_major = 65535, mdcv_minor = 0, mdcv_patch = 10, mdcv_dev = 907\<rparr>
     ''65535.0.10.907'' \<and>
   \<lparr>mdcv_major = 65535, mdcv_minor = 0, mdcv_patch = 10, mdcv_dev = 907\<rparr> \<noteq>
     \<lparr>mdcv_major = 6553, mdcv_minor = 50, mdcv_patch = 10, mdcv_dev = 907\<rparr> \<and>
   to_str_text (mem_fill (CHR ''x''))
     \<lparr>mdcv_major = 65535, mdcv_minor = 0, mdcv_patch = 10, mdcv_dev = 907\<rparr> 0 32 \<noteq>
   to_str_text (mem_fill (CHR ''y''))
     \<lparr>mdcv_major = 6553, mdcv_minor = 50, mdcv_patch = 10, mdcv_dev = 907\<rparr> 7 24 \<and>
   to_str_text (mem_fill (CHR ''x''))
     \<lparr>mdcv_major = 1, mdcv_minor = 0, mdcv_patch = 0, mdcv_dev = 0\<rparr> 0 8 = Inr ''1.0.0.0''"
proof -
  have sz: "(24::nat) \<le> 32" "(24::nat) \<le> 24" "(8::nat) \<le> 8"
    by simp_all
  have digits: "utoa 65535 = ''65535''" "utoa 0 = ''0''" "utoa 10 = ''10''" "utoa 907 = ''907''"
    by (simp_all add: utoa.simps digit_char_def)
  have differ: "\<lparr>mdcv_major = 65535, mdcv_minor = 0, mdcv_patch = 10, mdcv_dev = 907\<rparr> \<noteq>
     \<lparr>mdcv_major = 6553, mdcv_minor = 50, mdcv_patch = 10, mdcv_dev = (907 :: u16)\<rparr>"
    by simp
  note big = omfu_mdcver_to_str_canonical
    [of 32 "mem_fill (CHR ''x'')"
      "\<lparr>mdcv_major = 65535, mdcv_minor = 0, mdcv_patch = 10, mdcv_dev = 907\<rparr>" 0 24
      "\<lparr>mdcv_major = 6553, mdcv_minor = 50, mdcv_patch = 10, mdcv_dev = 907\<rparr>"
      "mem_fill (CHR ''y'')" 7]
  note small = omfu_mdcver_to_str_canonical
    [of 8 "mem_fill (CHR ''x'')"
      "\<lparr>mdcv_major = 1, mdcv_minor = 0, mdcv_patch = 0, mdcv_dev = 0\<rparr>" 0 8
      "\<lparr>mdcv_major = 1, mdcv_minor = 0, mdcv_patch = 0, mdcv_dev = 0\<rparr>"
      "mem_fill (CHR ''x'')" 0]
  from big sz digits have
    "to_str_text (mem_fill (CHR ''x''))
       \<lparr>mdcv_major = 65535, mdcv_minor = 0, mdcv_patch = 10, mdcv_dev = 907\<rparr> 0 32 =
       Inr ''65535.0.10.907''"
    "spec_to_string \<lparr>mdcv_major = 65535, mdcv_minor = 0, mdcv_patch = 10, mdcv_dev = 907\<rparr>
       ''65535.0.10.907''"
    by auto
  moreover from big sz differ have
    "to_str_text (mem_fill (CHR ''x''))
       \<lparr>mdcv_major = 65535, mdcv_minor = 0, mdcv_patch = 10, mdcv_dev = 907\<rparr> 0 32 \<noteq>
     to_str_text (mem_fill (CHR ''y''))
       \<lparr>mdcv_major = 6553, mdcv_minor = 50, mdcv_patch = 10, mdcv_dev = 907\<rparr> 7 24"
    by blast
  moreover from small sz have
    "to_str_text (mem_fill (CHR ''x''))
       \<lparr>mdcv_major = 1, mdcv_minor = 0, mdcv_patch = 0, mdcv_dev = 0\<rparr> 0 8 = Inr ''1.0.0.0''"
    by blast
  ultimately show ?thesis
    using sz differ by blast
qed

text \<open>
  Claim C10, as stated, ends: for \<^verbatim>\<open>sz\<close> smaller than 24 the output is truncated to
  \<^verbatim>\<open>sz - 1\<close> characters. The size 0 is smaller than 24, and with it nothing is written at
  all: the call returns \<^verbatim>\<open>buf\<close> and the memory as it was, so the first byte of the buffer is
  still what the caller left there, neither a terminator nor the first character of the
  rendering.
\<close>

theorem to_str_small_size_counterexample:
  "(0::nat) < 24 \<and>
   omfu_mdcver_to_str (mem_fill (CHR ''x''))
     \<lparr>mdcv_major = 1, mdcv_minor = 0, mdcv_patch = 0, mdcv_dev = 0\<rparr> 0 0 =
     Inr (0, mem_fill (CHR ''x'')) \<and>
   mem_fill (CHR ''x'') 0 \<noteq> NUL \<and>
   mem_fill (CHR ''x'') 0 \<noteq> CHR ''1'' \<and>
   to_str_text (mem_fill (CHR ''x''))
     \<lparr>mdcv_major = 1, mdcv_minor = 0, mdcv_patch = 0, mdcv_dev = 0\<rparr> 0 24 =
     Inr ''1.0.0.0''"
  by (simp add: to_str_eq to_str_text_fits mdcver_text_1000 mem_fill_def NUL_def)

text \<open>
  Claim C10, amended. The decimal rendering of four 16-bit components has at most 23
  characters, so for every version identifier \<^verbatim>\<open>omfu_mdcver_to_str\<close> called with \<^verbatim>\<open>sz\<close> of at
  least 24 writes the whole rendering and its terminator into the caller's buffer and
  returns that same buffer. For every \<^verbatim>\<open>sz\<close> of at least 1 the output is the rendering cut to
  at most \<^verbatim>\<open>sz - 1\<close> characters, followed by a terminator; with \<^verbatim>\<open>sz = 0\<close> nothing is
  written. In every case \<^verbatim>\<open>buf\<close> is returned and every byte outside \<^verbatim>\<open>buf[0 .. sz - 1]\<close> is
  left as it was.
\<close>

theorem omfu_mdcver_to_str_buffer:
  "length (mdcver_text v) \<le> 23 \<and>
   (\<exists>m'. omfu_mdcver_to_str m v buf sz = Inr (buf, m') \<and>
      (24 \<le> sz \<longrightarrow>
         cstring_in m' buf sz = mdcver_text v \<and>
         load_bytes m' buf (length (mdcver_text v) + 1) = mdcver_text v @ [NUL]) \<and>
      (0 < sz \<longrightarrow>
         cstring_in m' buf sz = take (sz - 1) (mdcver_text v) \<and>
         load_bytes m' buf (min (sz - 1) (length (mdcver_text v)) + 1) =
           take (sz - 1) (mdcver_text v) @ [NUL]) \<and>
      (sz = 0 \<longrightarrow> m' = m) \<and>
      (\<forall>q. q < buf \<or> buf + sz \<le> q \<longrightarrow> m' q = m q))"
proof -
  let ?t = "mdcver_text v"
  let ?m = "if sz = 0 then m else store_bytes m buf (take (sz - 1) ?t @ [NUL])"
  have len: "length ?t \<le> 23"
    by (rule mdcver_text_length)
  have ret: "omfu_mdcver_to_str m v buf sz = Inr (buf, ?m)"
    by (rule to_str_eq)
  have pos: "cstring_in ?m buf sz = take (sz - 1) ?t \<and>
      load_bytes ?m buf (min (sz - 1) (length ?t) + 1) = take (sz - 1) ?t @ [NUL]"
    if "0 < sz"
  proof -
    from that to_str_text_pos [of sz m v buf] have "cstring_in ?m buf sz = take (sz - 1) ?t"
      by (simp add: to_str_text_def to_str_eq)
    moreover have "load_bytes ?m buf (min (sz - 1) (length ?t) + 1) = take (sz - 1) ?t @ [NUL]"
      using that load_store_bytes [of m buf "take (sz - 1) ?t @ [NUL]"]
      by (simp add: min.commute)
    ultimately show ?thesis
      by simp
  qed
  have full: "cstring_in ?m buf sz = ?t \<and> load_bytes ?m buf (length ?t + 1) = ?t @ [NUL]"
    if "24 \<le> sz"
  proof -
    from that len have "take (sz - 1) ?t = ?t" "min (sz - 1) (length ?t) = length ?t" "0 < sz"
      by simp_all
    with pos show ?thesis
      by simp
  qed
  have zero: "?m = m" if "sz = 0"
    using that by simp
  have frame: "?m q = m q" if "q < buf \<or> buf + sz \<le> q" for q
    using that by (auto simp: store_bytes_outside)
  from len ret pos full zero frame show ?thesis
    by blast
qed

theorem omfu_mdcver_to_str_buffer_witness:
  "(0::nat) < 4 \<and> (24::nat) \<le> 24 \<and>
   to_str_text (mem_fill (CHR ''x''))
     \<lparr>mdcv_major = 12, mdcv_minor = 345, mdcv_patch = 0, mdcv_dev = 6\<rparr> 100 4 =
     Inr ''12.'' \<and>
   to_str_text (mem_fill (CHR ''x''))
     \<lparr>mdcv_major = 12, mdcv_minor = 345, mdcv_patch = 0, mdcv_dev = 6\<rparr> 100 24 =
     Inr ''12.345.0.6'' \<and>
   omfu_mdcver_to_str (mem_fill (CHR ''x''))
     \<lparr>mdcv_major = 12, mdcv_minor = 345, mdcv_patch = 0, mdcv_dev = 6\<rparr> 100 0 =
     Inr (100, mem_fill (CHR ''x''))"
proof -
  have rendered:
    "mdcver_text \<lparr>mdcv_major = 12, mdcv_minor = 345, mdcv_patch = 0, mdcv_dev = 6\<rparr> =
      ''12.345.0.6''"
    by (simp add: mdcver_text_def utoa.simps digit_char_def)
  have pos: "(0::nat) < 4" "(0::nat) < 24" "(24::nat) \<le> 24"
    by simp_all
  from omfu_mdcver_to_str_buffer
    [of "\<lparr>mdcv_major = 12, mdcv_minor = 345, mdcv_patch = 0, mdcv_dev = 6\<rparr>"
        "mem_fill (CHR ''x'')" 100 4] pos
  obtain m4 where ret4: "omfu_mdcver_to_str (mem_fill (CHR ''x''))
           \<lparr>mdcv_major = 12, mdcv_minor = 345, mdcv_patch = 0, mdcv_dev = 6\<rparr> 100 4 =
           Inr (100, m4)"
    and str4: "cstring_in m4 100 4 = take (4 - 1) ''12.345.0.6''"
    unfolding rendered by blast
  from omfu_mdcver_to_str_buffer
    [of "\<lparr>mdcv_major = 12, mdcv_minor = 345, mdcv_patch = 0, mdcv_dev = 6\<rparr>"
        "mem_fill (CHR ''x'')" 100 24] pos
  obtain m24 where ret24: "omfu_mdcver_to_str (mem_fill (CHR ''x''))
           \<lparr>mdcv_major = 12, mdcv_minor = 345, mdcv_patch = 0, mdcv_dev = 6\<rparr> 100 24 =
           Inr (100, m24)"
    and str24: "cstring_in m24 100 24 = ''12.345.0.6''"
    unfolding rendered by blast
  from omfu_mdcver_to_str_buffer
    [of "\<lparr>mdcv_major = 12, mdcv_minor = 345, mdcv_patch = 0, mdcv_dev = 6\<rparr>"
        "mem_fill (CHR ''x'')" 100 0]
  have ret0: "omfu_mdcver_to_str (mem_fill (CHR ''x''))
           \<lparr>mdcv_major = 12, mdcv_minor = 345, mdcv_patch = 0, mdcv_dev = 6\<rparr> 100 0 =
           Inr (100, mem_fill (CHR ''x''))"
    by auto
  from ret4 str4 ret24 str24 ret0 show ?thesis
    by (simp add: to_str_text_def)
qed

end
